theory Spec2Isabelle
  imports Main "HOL-Library.Char_ord" "HOL-Library.List_Lexorder"
begin

section \<open>Strings and the library functions the encoder calls\<close>

text \<open>
  A Go string is a sequence of bytes, and so is an Isabelle \<open>string\<close>; \<open>[]byte\<close>
  converted with \<open>string(b)\<close> is the same bytes. Strings are compared bytewise and
  lexicographically, a proper prefix first, which is the order of
  \<open>HOL-Library.List_Lexorder\<close> over \<open>HOL-Library.Char_ord\<close>.
\<close>

subsection \<open>net/url: QueryEscape and QueryUnescape\<close>

text \<open>
  \<open>shouldEscape(c, encodeQueryComponent)\<close>: letters and digits are kept, so are
  \<open>- _ . ~\<close>; the reserved characters \<open>$ & + , / : ; = ? @\<close> are escaped in a query
  component, and so is every other byte.
\<close>

definition shouldEscape :: "char \<Rightarrow> bool" where
  "shouldEscape c =
     (if (CHR ''a'' \<le> c \<and> c \<le> CHR ''z'') \<or> (CHR ''A'' \<le> c \<and> c \<le> CHR ''Z'')
          \<or> (CHR ''0'' \<le> c \<and> c \<le> CHR ''9'') then False
      else if c \<in> set ''-_.~'' then False
      else True)"

definition upperhex :: string where
  "upperhex = ''0123456789ABCDEF''"

text \<open>
  \<open>escape(s, encodeQueryComponent)\<close>, byte by byte: a space becomes \<open>+\<close>, a byte
  to escape becomes \<open>%\<close> and its two upper-case hexadecimal digits
  (\<open>upperhex[c>>4]\<close>, \<open>upperhex[c&15]\<close>), any other byte is copied.
\<close>

fun QueryEscape :: "string \<Rightarrow> string" where
  "QueryEscape [] = []"
| "QueryEscape (c # s) =
     (if c = CHR '' '' then CHR ''+'' # QueryEscape s
      else if shouldEscape c then
        CHR ''%'' # upperhex ! (of_char c div 16) # upperhex ! (of_char c mod 16) # QueryEscape s
      else c # QueryEscape s)"

text \<open>\<open>ishex\<close> and \<open>unhex\<close> of net/url, as one function: the value of a hexadecimal digit.\<close>

definition unhex :: "char \<Rightarrow> nat option" where
  "unhex c =
     (if CHR ''0'' \<le> c \<and> c \<le> CHR ''9'' then Some (of_char c - of_char CHR ''0'')
      else if CHR ''a'' \<le> c \<and> c \<le> CHR ''f'' then Some (of_char c - of_char CHR ''a'' + 10)
      else if CHR ''A'' \<le> c \<and> c \<le> CHR ''F'' then Some (of_char c - of_char CHR ''A'' + 10)
      else None)"

datatype url_error = EscapeError string | InvalidSemicolon

text \<open>
  \<open>unescape(s, encodeQueryComponent)\<close>: \<open>%XX\<close> is the byte with that code, \<open>+\<close> is
  a space; a \<open>%\<close> not followed by two hexadecimal digits is an \<open>EscapeError\<close> carrying
  the offending text (at most three bytes). The library validates the whole string
  before it converts; the first error found is the same.
\<close>

fun QueryUnescape :: "string \<Rightarrow> url_error + string" where
  "QueryUnescape [] = Inr []"
| "QueryUnescape (c # s) =
     (if c = CHR ''%'' then
        (case s of
           h # l # r \<Rightarrow>
             (case (unhex h, unhex l) of
                (Some a, Some b) \<Rightarrow>
                  (case QueryUnescape r of
                     Inl e \<Rightarrow> Inl e
                   | Inr t \<Rightarrow> Inr (char_of (a * 16 + b) # t))
              | _ \<Rightarrow> Inl (EscapeError [c, h, l]))
         | _ \<Rightarrow> Inl (EscapeError (c # s)))
      else
        (case QueryUnescape s of
           Inl e \<Rightarrow> Inl e
         | Inr t \<Rightarrow> Inr ((if c = CHR ''+'' then CHR '' '' else c) # t)))"

subsection \<open>net/url: Values\<close>

text \<open>
  \<open>url.Values\<close> is \<open>map[string][]string\<close>. It is kept as an association list with
  distinct keys; its order is of no consequence, since \<open>Encode\<close> sorts the keys.
\<close>

type_synonym Values = "(string \<times> string list) list"

text \<open>\<open>v.Add(key, value)\<close>: \<open>v[key] = append(v[key], value)\<close>.\<close>

fun Add :: "Values \<Rightarrow> string \<Rightarrow> string \<Rightarrow> Values" where
  "Add [] key val = [(key, [val])]"
| "Add ((k, vs) # v) key val =
     (if k = key then (k, vs @ [val]) # v else (k, vs) # Add v key val)"

text \<open>
  \<open>v.Encode()\<close>: the keys sorted; for each key and each of its values, in order,
  \<open>QueryEscape(key) = QueryEscape(value)\<close>, the pieces separated by \<open>&\<close>.
\<close>

fun join_amp :: "string list \<Rightarrow> string" where
  "join_amp [] = []"
| "join_amp [p] = p"
| "join_amp (p # q # ps) = p @ ''&'' @ join_amp (q # ps)"

definition pieces :: "Values \<Rightarrow> string \<Rightarrow> string list" where
  "pieces v k =
     map (\<lambda>val. QueryEscape k @ ''='' @ QueryEscape val)
       (case map_of v k of None \<Rightarrow> [] | Some vs \<Rightarrow> vs)"

definition Encode :: "Values \<Rightarrow> string" where
  "Encode v = join_amp (concat (map (pieces v) (sort (map fst v))))"

subsection \<open>net/url: ParseQuery\<close>

text \<open>\<open>strings.Cut(s, sep)\<close> for a separator of one byte: the text before its first occurrence and the text after it (all of \<open>s\<close> and nothing, when it does not occur).\<close>

definition Cut :: "string \<Rightarrow> char \<Rightarrow> string \<times> string" where
  "Cut s sep = (takeWhile (\<lambda>c. c \<noteq> sep) s, drop 1 (dropWhile (\<lambda>c. c \<noteq> sep) s))"

lemma length_Cut_after: "s \<noteq> [] \<Longrightarrow> length (snd (Cut s sep)) < length s"
proof -
  assume ne: "s \<noteq> []"
  have le: "length (dropWhile (\<lambda>c. c \<noteq> sep) s) \<le> length s"
    by (rule length_dropWhile_le)
  have "length (dropWhile (\<lambda>c. c \<noteq> sep) s) - 1 < length s"
    using ne le by (cases s) simp_all
  then show ?thesis by (simp add: Cut_def)
qed

lemma length_Cut_after': "s \<noteq> [] \<Longrightarrow> (x, y) = Cut s sep \<Longrightarrow> length y < length s"
  using length_Cut_after [of s sep] by (metis snd_conv)

text \<open>
  \<open>parseQuery(m, query)\<close>: the loop \<open>for query != ""\<close>, carrying the map and the
  error to return. A piece with a semicolon sets the error and is skipped, an empty
  piece is skipped, a piece whose key or value does not unescape is skipped and its
  error kept when it is the first.
\<close>

function parseQuery :: "Values \<Rightarrow> url_error option \<Rightarrow> string \<Rightarrow> Values \<times> url_error option" where
  "parseQuery m err query =
     (if query = [] then (m, err)
      else
        (case Cut query (CHR ''&'') of
           (key, query') \<Rightarrow>
             if CHR '';'' \<in> set key then parseQuery m (Some InvalidSemicolon) query'
             else if key = [] then parseQuery m err query'
             else
               (case Cut key (CHR ''='') of
                  (key, val) \<Rightarrow>
                    (case QueryUnescape key of
                       Inl err1 \<Rightarrow> parseQuery m (if err = None then Some err1 else err) query'
                     | Inr key1 \<Rightarrow>
                         (case QueryUnescape val of
                            Inl err1 \<Rightarrow>
                              parseQuery m (if err = None then Some err1 else err) query'
                          | Inr val1 \<Rightarrow> parseQuery (Add m key1 val1) err query')))))"
  by pat_completeness auto
termination
  by (relation "measure (\<lambda>(m, err, query). length query)")
     (auto intro: length_Cut_after')

declare parseQuery.simps [simp del]

definition ParseQuery :: "string \<Rightarrow> Values \<times> url_error option" where
  "ParseQuery query = parseQuery [] None query"

subsection \<open>fmt: Sprintf with one string operand\<close>

text \<open>
  \<open>fmt.Sprintf(format, k)\<close> for a string \<open>k\<close>, on the formats whose directives are
  \<open>%s\<close> and \<open>%%\<close> only. Bytes outside a directive are copied; \<open>%%\<close> is a percent
  sign; the first \<open>%s\<close> is the operand, a later one has no operand left and prints
  \<open>%!s(MISSING)\<close>; an operand no directive has taken is reported at the end as
  \<open>%!(EXTRA string=k)\<close>. Any other directive (flags, width, precision, another verb,
  a \<open>%\<close> that ends the format) is outside this model: the result is \<open>None\<close>, which
  says nothing about what Go prints there. Go itself never fails in \<open>Sprintf\<close>.
\<close>

fun doPrintf :: "string \<Rightarrow> string \<Rightarrow> bool \<Rightarrow> string option" where
  "doPrintf [] a used = Some (if used then [] else ''%!(EXTRA string='' @ a @ '')'')"
| "doPrintf (c # cs) a used =
     (if c \<noteq> CHR ''%'' then map_option ((#) c) (doPrintf cs a used)
      else
        (case cs of
           v # r \<Rightarrow>
             if v = CHR ''%'' then map_option ((#) CHR ''%'') (doPrintf r a used)
             else if v = CHR ''s'' then
               map_option ((@) (if used then ''%!s(MISSING)'' else a)) (doPrintf r a True)
             else None
         | [] \<Rightarrow> None))"

definition Sprintf :: "string \<Rightarrow> string \<Rightarrow> string option" where
  "Sprintf format k = doPrintf format k False"

text \<open>\<open>fmt.Sprintf("%d", v)\<close> for an integer \<open>v\<close>: its decimal digits, after a minus sign when negative.\<close>

fun digits :: "nat \<Rightarrow> string" where
  "digits n =
     (if n < 10 then [''0123456789'' ! n] else digits (n div 10) @ [''0123456789'' ! (n mod 10)])"

declare digits.simps [simp del]

definition decimal :: "int \<Rightarrow> string" where
  "decimal i = (if i < 0 then CHR ''-'' # digits (nat (- i)) else digits (nat i))"

section \<open>Parameter maps\<close>

text \<open>
  The values of a parameter map are the dynamic types the encoder's type switch tells
  apart: a string, a byte sequence, a \<open>map[string]interface{}\<close>, the ten integer
  types (one constructor, with the type and the number), and some of the types that
  no case of the switch matches: a floating-point number, a boolean, the nil value
  and, as a value that JSON cannot serialize, a channel.
\<close>

datatype int_kind =
  TInt64 | TInt32 | TInt16 | TInt8 | TInt | TUint64 | TUint32 | TUint16 | TUint8 | TUint

datatype pvalue =
    VString string
  | VBytes string
  | VMap "(string \<times> pvalue) list option"
  | VInteger int_kind int
  | VFloat64
  | VBool bool
  | VNil
  | VChan

text \<open>
  Modelled from the spec: the type \<open>x.H\<close> of the parameters, which the module
  github.com/goantor/x declares and the sources here only use. The spec's ParameterMap
  is an unordered mapping from unique string keys to dynamically typed values, and the
  code ranges over it and hands it on as a \<open>map[string]interface{}\<close>.

  A map is \<open>None\<close> when nil, and otherwise the list of its entries, with distinct
  keys, in the order in which \<open>range\<close> visits them: Go leaves that order open, so a
  statement about a map is a statement about every such list.
\<close>

type_synonym entries = "(string \<times> pvalue) list"
type_synonym H = "entries option"

definition range_of :: "H \<Rightarrow> entries" where
  "range_of params = (case params of None \<Rightarrow> [] | Some es \<Rightarrow> es)"

section \<open>queryParams\<close>

text \<open>
  \<open>queryParams\<close> and its \<open>for k, v := range params\<close> loop, which carries
  \<open>values\<close> and \<open>ret\<close>. The result is \<open>None\<close> only when a format handed to
  \<open>Sprintf\<close> leaves the modelled directives.
\<close>

function (sequential) queryParams :: "H \<Rightarrow> string \<Rightarrow> string option"
  and range_params :: "entries \<Rightarrow> string \<Rightarrow> Values \<Rightarrow> string \<Rightarrow> (Values \<times> string) option"
where
  "queryParams params format =
     (case range_params (range_of params) format [] [] of
        None \<Rightarrow> None
      | Some (values, ret) \<Rightarrow> Some (ret @ Encode values))"
| "range_params [] format values ret = Some (values, ret)"
| "range_params ((k, v) # rest) format values ret =
     (case (if length format \<noteq> 0 then Sprintf format k else Some k) of
        None \<Rightarrow> None
      | Some nk \<Rightarrow>
          (case v of
             VString s \<Rightarrow> range_params rest format (Add values nk s) ret
           | VBytes b \<Rightarrow> range_params rest format (Add values nk b) ret
           | VMap m \<Rightarrow>
               (case queryParams m (nk @ ''[%s]'') of
                  None \<Rightarrow> None
                | Some sub \<Rightarrow> range_params rest format values (ret @ sub @ ''&''))
           | VInteger t i \<Rightarrow> range_params rest format (Add values nk (decimal i)) ret
           | _ \<Rightarrow> range_params rest format values ret))"
  by pat_completeness auto

termination
  by (relation "measure (\<lambda>a. case a of
         Inl (params, format) \<Rightarrow> size_option (size_list (size_prod (\<lambda>k. 0) size)) params + 1
       | Inr (es, format, values, ret) \<Rightarrow> size_list (size_prod (\<lambda>k. 0) size) es)")
     (auto simp: range_of_def split: option.splits)

declare queryParams.simps [simp del]

section \<open>encoding/json: Marshal of a parameter map\<close>

text \<open>
  \<open>json.Marshal\<close> on the values above. A string is quoted; of its bytes this model
  covers the printable ASCII range \<open>0x20\<close> to \<open>0x7F\<close>, where \<open>"\<close> and \<open>\\<close> take
  a backslash, \<open><\<close>, \<open>>\<close> and \<open>&\<close> become a backslash and \<open>u003c\<close>, \<open>u003e\<close> and
  \<open>u0026\<close>, and every other byte is copied. A nil map is \<open>null\<close>, a map is an object whose members come in
  the order of their keys, an integer is its decimal digits, a boolean \<open>true\<close> or
  \<open>false\<close>, a nil value \<open>null\<close>; a channel cannot be serialized
  (\<open>UnsupportedTypeError\<close>), and the first such value, in the order of the keys, ends
  the serialization. Strings with other bytes, byte sequences (base64) and
  floating-point numbers are outside this model: the result is \<open>None\<close>.
\<close>

datatype json_error = UnsupportedTypeError

definition dquote :: char where
  "dquote = CHR 0x22"

definition backslash :: char where
  "backslash = CHR 0x5C"

fun appendString :: "string \<Rightarrow> string option" where
  "appendString [] = Some []"
| "appendString (c # s) =
     (if c < CHR 0x20 \<or> CHR 0x7F < c then None
      else
        map_option
          ((@) (if c = dquote \<or> c = backslash then [backslash, c]
                else if c = CHR ''<'' then backslash # ''u003c''
                else if c = CHR ''>'' then backslash # ''u003e''
                else if c = CHR ''&'' then backslash # ''u0026''
                else [c]))
          (appendString s))"

definition quoted :: "string \<Rightarrow> string option" where
  "quoted s = map_option (\<lambda>t. dquote # t @ [dquote]) (appendString s)"

lemma size_list_insort_key:
  "size_list g (insort_key f x xs) = size_list g (x # xs)"
  by (induction xs) auto

lemma size_list_sort_key: "size_list g (sort_key f xs) = size_list g xs"
  by (induction xs) (auto simp: size_list_insort_key)

function (sequential) marshalValue :: "pvalue \<Rightarrow> (json_error + string) option"
  and marshalMembers :: "entries \<Rightarrow> (json_error + string) option"
where
  "marshalValue (VString s) = map_option Inr (quoted s)"
| "marshalValue (VBytes b) = None"
| "marshalValue (VMap None) = Some (Inr ''null'')"
| "marshalValue (VMap (Some es)) =
     (case marshalMembers (sort_key fst es) of
        None \<Rightarrow> None
      | Some (Inl e) \<Rightarrow> Some (Inl e)
      | Some (Inr t) \<Rightarrow> Some (Inr (''{'' @ t @ ''}'')))"
| "marshalValue (VInteger t i) = Some (Inr (decimal i))"
| "marshalValue VFloat64 = None"
| "marshalValue (VBool b) = Some (Inr (if b then ''true'' else ''false''))"
| "marshalValue VNil = Some (Inr ''null'')"
| "marshalValue VChan = Some (Inl UnsupportedTypeError)"
| "marshalMembers [] = Some (Inr [])"
| "marshalMembers ((k, v) # rest) =
     (case quoted k of
        None \<Rightarrow> None
      | Some kt \<Rightarrow>
          (case marshalValue v of
             None \<Rightarrow> None
           | Some (Inl e) \<Rightarrow> Some (Inl e)
           | Some (Inr vt) \<Rightarrow>
               (case marshalMembers rest of
                  None \<Rightarrow> None
                | Some (Inl e) \<Rightarrow> Some (Inl e)
                | Some (Inr t) \<Rightarrow>
                    Some (Inr (kt @ '':'' @ vt @ (if rest = [] then [] else '','' @ t))))))"
  by pat_completeness auto
termination
  by (relation "measure (\<lambda>a. case a of
         Inl v \<Rightarrow> size v
       | Inr es \<Rightarrow> size_list (size_prod (\<lambda>k. 0) size) es)")
     (auto simp: size_list_sort_key)

text \<open>
  \<open>json.Marshal(params)\<close> returns the bytes and the error; on an error the bytes
  are nil.
\<close>

definition json_Marshal :: "H \<Rightarrow> (string \<times> json_error option) option" where
  "json_Marshal params =
     (case marshalValue (VMap params) of
        None \<Rightarrow> None
      | Some (Inl e) \<Rightarrow> Some ([], Some e)
      | Some (Inr js) \<Rightarrow> Some (js, None))"

section \<open>Requests\<close>

type_synonym MethodType = string
type_synonym ContentType = string

definition GetMethod :: MethodType where
  "GetMethod = ''GET''"

definition PostMethod :: MethodType where
  "PostMethod = ''POST''"

definition FormType :: ContentType where
  "FormType = ''application/x-www-form-urlencoded''"

definition JsonType :: ContentType where
  "JsonType = ''application/json''"

text \<open>
  \<open>http.Header\<close> is \<open>map[string][]string\<close>; a header argument is \<open>None\<close> when nil.
  \<open>time.Duration\<close> is a number of nanoseconds.
\<close>

type_synonym Header = "string \<rightharpoonup> string list"
type_synonym Duration = int

definition Second :: Duration where
  "Second = 1000000000"

text \<open>
  \<open>h.Set(key, value)\<close>: the entry of the canonical form of the key becomes the one
  value. \<open>Content-Type\<close>, the only key set here, is its own canonical form.
\<close>

definition Header_Set :: "Header \<Rightarrow> string \<Rightarrow> string \<Rightarrow> Header" where
  "Header_Set h key val = h(key \<mapsto> [val])"

record Transport =
  MaxIdleConns :: int
  MaxIdleConnsPerHost :: int
  IdleConnTimeout :: Duration
  MaxConnsPerHost :: int
  DialTimeout :: Duration
  DialKeepAlive :: Duration
  TLSHandshakeTimeout :: Duration
  DisableKeepAlives :: bool
  ResponseHeaderTimeout :: Duration
  ExpectContinueTimeout :: Duration
  MaxResponseHeaderBytes :: int

record Client =
  ClientTransport :: Transport
  ClientTimeout :: Duration

definition transport :: Transport where
  "transport =
     \<lparr> MaxIdleConns = 5000, MaxIdleConnsPerHost = 1000, IdleConnTimeout = 90 * Second,
       MaxConnsPerHost = 200, DialTimeout = 30 * Second, DialKeepAlive = 30 * Second,
       TLSHandshakeTimeout = 10 * Second, DisableKeepAlives = False,
       ResponseHeaderTimeout = 5 * Second, ExpectContinueTimeout = 1 * Second,
       MaxResponseHeaderBytes = 10 * 2 ^ 20 \<rparr>"

definition clientPool :: Client where
  "clientPool = \<lparr> ClientTransport = transport, ClientTimeout = 30 * Second \<rparr>"

record Request =
  Method :: MethodType
  ContentType :: ContentType
  Url :: string
  Params :: H
  Header :: "Header option"
  Timeout :: Duration

text \<open>
  The request of net/http: method, URL, the bytes its body reader yields (none for a
  nil body) and the header map. \<open>http.NewRequest\<close> refuses a method that is not a
  token and a URL that \<open>url.Parse\<close> rejects; that check belongs to net/http and is
  the parameter \<open>accepts\<close>. A new request has an empty, non-nil header map.
\<close>

record http_Request =
  req_Method :: string
  req_URL :: string
  req_Body :: string
  req_Header :: "Header option"

datatype error = ConstructionError

definition http_NewRequest ::
  "(string \<Rightarrow> string \<Rightarrow> bool) \<Rightarrow> string \<Rightarrow> string \<Rightarrow> string \<Rightarrow> error + http_Request" where
  "http_NewRequest accepts method url body =
     (if accepts method url then
        Inr \<lparr> req_Method = method, req_URL = url, req_Body = body, req_Header = Some Map.empty \<rparr>
      else Inl ConstructionError)"

text \<open>
  \<open>c.Do(req)\<close> hands the request to the transport of the client \<open>c\<close>; what the
  network answers is not modelled, and the result of a dispatch is the client and the
  request it sends. \<open>c.Get(url)\<close> is \<open>http.NewRequest("GET", url, nil)\<close> followed by
  \<open>c.Do\<close>.
\<close>

type_synonym sent = "Client \<times> http_Request"

definition Client_Do :: "Client \<Rightarrow> http_Request \<Rightarrow> error + sent" where
  "Client_Do c req = Inr (c, req)"

definition Client_Get :: "(string \<Rightarrow> string \<Rightarrow> bool) \<Rightarrow> Client \<Rightarrow> string \<Rightarrow> error + sent" where
  "Client_Get accepts c url =
     (case http_NewRequest accepts ''GET'' url [] of
        Inl err \<Rightarrow> Inl err
      | Inr req \<Rightarrow> Client_Do c req)"

text \<open>
  The functions of the package. Their results are \<open>None\<close> only where \<open>queryParams\<close>
  or \<open>json_Marshal\<close> is, on input outside the modelled part of fmt and encoding/json.
\<close>

definition getRequestURL :: "string \<Rightarrow> H \<Rightarrow> string option" where
  "getRequestURL url params =
     (case queryParams params [] of
        None \<Rightarrow> None
      | Some queryString \<Rightarrow> Some (url @ ''?'' @ queryString))"

definition NewRequest ::
  "MethodType \<Rightarrow> ContentType \<Rightarrow> string \<Rightarrow> H \<Rightarrow> Header option \<Rightarrow> Duration \<Rightarrow> Request option" where
  "NewRequest method contentType url params header timeout =
     (if method = GetMethod then
        (case getRequestURL url params of
           None \<Rightarrow> None
         | Some url' \<Rightarrow>
             Some \<lparr> Method = method, ContentType = contentType, Url = url', Params = None,
                    Header = header, Timeout = timeout \<rparr>)
      else
        Some \<lparr> Method = method, ContentType = contentType, Url = url, Params = params,
               Header = header, Timeout = timeout \<rparr>)"

definition getData :: "ContentType \<Rightarrow> H \<Rightarrow> string option" where
  "getData typ params =
     (if typ = JsonType then
        (case json_Marshal params of
           None \<Rightarrow> None
         | Some (js, err) \<Rightarrow> Some js)
      else queryParams params [])"

definition makeRequest ::
  "(string \<Rightarrow> string \<Rightarrow> bool) \<Rightarrow> MethodType \<Rightarrow> ContentType \<Rightarrow> string \<Rightarrow> H
     \<Rightarrow> (error + http_Request) option" where
  "makeRequest accepts method typ url params =
     (case getData typ params of
        None \<Rightarrow> None
      | Some body \<Rightarrow> Some (http_NewRequest accepts method url body))"

definition do ::
  "(string \<Rightarrow> string \<Rightarrow> bool) \<Rightarrow> MethodType \<Rightarrow> ContentType \<Rightarrow> string \<Rightarrow> H \<Rightarrow> Header option
     \<Rightarrow> Duration \<Rightarrow> (error + sent) option" where
  "do accepts method contentType url params header duration =
     (case makeRequest accepts method contentType url params of
        None \<Rightarrow> None
      | Some (Inl err) \<Rightarrow> Some (Inl err)
      | Some (Inr req) \<Rightarrow> Some (Client_Do clientPool (req\<lparr>req_Header := header\<rparr>)))"

definition DoRequest :: "(string \<Rightarrow> string \<Rightarrow> bool) \<Rightarrow> Request \<Rightarrow> (error + sent) option" where
  "DoRequest accepts req =
     do accepts (Method req) (ContentType req) (Url req) (Params req) (Header req) (Timeout req)"

definition Get :: "(string \<Rightarrow> string \<Rightarrow> bool) \<Rightarrow> string \<Rightarrow> H \<Rightarrow> (error + sent) option" where
  "Get accepts url params =
     (case getRequestURL url params of
        None \<Rightarrow> None
      | Some url' \<Rightarrow> Some (Client_Get accepts clientPool url'))"

definition Form ::
  "(string \<Rightarrow> string \<Rightarrow> bool) \<Rightarrow> string \<Rightarrow> H \<Rightarrow> Header option \<Rightarrow> Duration \<Rightarrow> (error + sent) option" where
  "Form accepts url params header duration =
     (let header = (case header of None \<Rightarrow> Map.empty | Some h \<Rightarrow> h);
          header = Header_Set header ''Content-Type'' FormType
      in do accepts PostMethod FormType url params (Some header) duration)"

definition Json ::
  "(string \<Rightarrow> string \<Rightarrow> bool) \<Rightarrow> string \<Rightarrow> H \<Rightarrow> Header option \<Rightarrow> Duration \<Rightarrow> (error + sent) option" where
  "Json accepts url params header duration =
     (let header = (case header of None \<Rightarrow> Map.empty | Some h \<Rightarrow> h);
          header = Header_Set header ''Content-Type'' ''application/json;charset=utf-8''
      in do accepts PostMethod JsonType url params (Some header) duration)"

definition Auto ::
  "(string \<Rightarrow> string \<Rightarrow> bool) \<Rightarrow> MethodType \<Rightarrow> ContentType \<Rightarrow> string \<Rightarrow> H \<Rightarrow> Header option
     \<Rightarrow> Duration \<Rightarrow> (error + sent) option" where
  "Auto accepts method contentType url params header duration =
     (if method = GetMethod then Get accepts url params
      else if contentType = FormType then Form accepts url params header duration
      else Json accepts url params header duration)"

section \<open>Notions the statements use\<close>

text \<open>\<open>strings.Contains(s, sub)\<close>: \<open>sub\<close> occurs in \<open>s\<close> as a run of consecutive bytes.\<close>

fun contains :: "string \<Rightarrow> string \<Rightarrow> bool" where
  "contains [] sub = (sub = [])"
| "contains (c # s) sub = (take (length sub) (c # s) = sub \<or> contains s sub)"

text \<open>
  The effective key of an entry, in the spec's words: the raw key when no key format is
  given, and else the key substituted into the one-placeholder template.
\<close>

definition effective_key :: "string \<Rightarrow> string \<Rightarrow> string option" where
  "effective_key keyFormat key = (if keyFormat = [] then Some key else Sprintf keyFormat key)"

text \<open>
  The nested part of the output, in the spec's words: the recursively encoded fragment
  of every nested-map entry, with key format the effective key followed by \<open>[%s]\<close>,
  each followed by one \<open>&\<close>. Like \<open>queryParams\<close> it is \<open>None\<close> where an effective key
  is.
\<close>

fun nested_fragments :: "entries \<Rightarrow> string \<Rightarrow> string option" where
  "nested_fragments [] keyFormat = Some []"
| "nested_fragments ((key, VMap m) # rest) keyFormat =
     (case effective_key keyFormat key of
        None \<Rightarrow> None
      | Some ek \<Rightarrow>
          (case queryParams m (ek @ ''[%s]'') of
             None \<Rightarrow> None
           | Some fragment \<Rightarrow>
               map_option (\<lambda>others. fragment @ ''&'' @ others) (nested_fragments rest keyFormat)))"
| "nested_fragments ((key, v) # rest) keyFormat =
     (case effective_key keyFormat key of
        None \<Rightarrow> None
      | Some ek \<Rightarrow> nested_fragments rest keyFormat)"

text \<open>
  The simple values: a string or a byte sequence as it is, an integer in decimal; no
  other value is one. \<open>simple_values\<close> adds the simple entries of a map, under their
  effective keys, to a collector; \<open>simple_pairs\<close> lists them.
\<close>

fun simple_text :: "pvalue \<Rightarrow> string option" where
  "simple_text (VString s) = Some s"
| "simple_text (VBytes b) = Some b"
| "simple_text (VInteger t i) = Some (decimal i)"
| "simple_text v = None"

fun simple_values :: "entries \<Rightarrow> string \<Rightarrow> Values \<Rightarrow> Values option" where
  "simple_values [] keyFormat values = Some values"
| "simple_values ((key, v) # rest) keyFormat values =
     (case effective_key keyFormat key of
        None \<Rightarrow> None
      | Some ek \<Rightarrow>
          (case simple_text v of
             None \<Rightarrow> simple_values rest keyFormat values
           | Some text \<Rightarrow> simple_values rest keyFormat (Add values ek text)))"

fun is_nested :: "pvalue \<Rightarrow> bool" where
  "is_nested (VMap m) = True"
| "is_nested v = False"

definition simple_pairs :: "entries \<Rightarrow> string \<Rightarrow> (string \<times> string) list" where
  "simple_pairs es keyFormat =
     concat (map (\<lambda>(key, v).
                case (effective_key keyFormat key, simple_text v) of
                  (Some ek, Some text) \<Rightarrow> [(ek, text)]
                | _ \<Rightarrow> []) es)"

definition add_all :: "(string \<times> string) list \<Rightarrow> Values \<Rightarrow> Values" where
  "add_all pairs values = fold (\<lambda>(ek, text) vs. Add vs ek text) pairs values"

definition supported :: "pvalue \<Rightarrow> bool" where
  "supported v = (simple_text v \<noteq> None \<or> is_nested v)"

text \<open>
  The maps whose encoding stays inside the modelled directives of \<open>Sprintf\<close>: no key
  of a nested-map entry, at any depth, holds a percent sign. The key formats that arise
  for them are the empty one and a text without percent sign followed by \<open>[%s]\<close>.
\<close>

function (sequential) plain_value :: "pvalue \<Rightarrow> bool"
  and plain_entries :: "entries \<Rightarrow> bool"
where
  "plain_value (VMap (Some es)) = plain_entries es"
| "plain_value v = True"
| "plain_entries [] = True"
| "plain_entries ((key, v) # rest) =
     ((if is_nested v then CHR ''%'' \<notin> set key else True) \<and> plain_value v \<and> plain_entries rest)"
  by pat_completeness auto
termination
  by (relation "measure (\<lambda>a. case a of
         Inl v \<Rightarrow> size v
       | Inr es \<Rightarrow> size_list (size_prod (\<lambda>k. 0) size) es)")
     auto

definition bracket_format :: "string \<Rightarrow> bool" where
  "bracket_format f = (f = [] \<or> (\<exists>p. CHR ''%'' \<notin> set p \<and> f = p @ ''[%s]''))"

text \<open>The maps of C3: every value is a string or an integer.\<close>

fun is_string_or_int :: "pvalue \<Rightarrow> bool" where
  "is_string_or_int (VString s) = True"
| "is_string_or_int (VInteger t i) = True"
| "is_string_or_int v = False"

text \<open>
  Two notions of the proofs: the text \<open>QueryEscape(key) = QueryEscape(value)\<close> that
  \<open>Encode\<close> writes for one value, and the \<open>Values\<close> in which each key of a list has
  its one value.
\<close>

definition piece :: "string \<times> string \<Rightarrow> string" where
  "piece kt = QueryEscape (fst kt) @ ''='' @ QueryEscape (snd kt)"

definition single :: "(string \<times> string) list \<Rightarrow> Values" where
  "single kts = map (\<lambda>kt. (fst kt, [snd kt])) kts"

section \<open>The bracket key of a nested map\<close>

text \<open>
  C1, as stated, fails: for the nested map \<open>{"a": {"b": "1"}}\<close> and an empty key
  format the output is \<open>a%5Bb%5D=1&\<close>, and the text \<open>a[b]=1\<close> does not occur in
  it. The child key \<open>a[b]\<close> goes through \<open>url.Values.Encode\<close>, which query-escapes
  keys, and the two brackets are bytes it escapes.
\<close>

theorem C1_literal_brackets_counterexample:
  "queryParams (Some [(''a'', VMap (Some [(''b'', VString ''1'')]))]) [] = Some ''a%5Bb%5D=1&''
   \<and> \<not> contains ''a%5Bb%5D=1&'' ''a[b]=1''"
  by (simp add: queryParams.simps range_of_def Sprintf_def Encode_def pieces_def
        shouldEscape_def upperhex_def)

text \<open>
  C1, amended: for the nested map \<open>{"a": {"b": "1"}}\<close> and an empty key format the
  output is \<open>a%5Bb%5D=1&\<close>. It contains \<open>a%5Bb%5D=1\<close>, in which the child key is the
  bracket composition \<open>a[b]\<close> of the parent and child names, query-escaped; standard
  query-string decoding of the output gives the one key \<open>a[b]\<close> with the one value
  \<open>1\<close>.
\<close>

theorem C1_escaped_bracket_key:
  "queryParams (Some [(''a'', VMap (Some [(''b'', VString ''1'')]))]) [] = Some ''a%5Bb%5D=1&''
   \<and> contains ''a%5Bb%5D=1&'' (QueryEscape ''a[b]'' @ ''=1'')
   \<and> QueryEscape ''a[b]'' = ''a%5Bb%5D''
   \<and> ParseQuery ''a%5Bb%5D=1&'' = ([(''a[b]'', [''1''])], None)"
  by code_simp

section \<open>The shape of the encoder's output\<close>

lemma range_params_Cons:
  "range_params ((k, v) # rest) f vs ret =
     (case effective_key f k of
        None \<Rightarrow> None
      | Some nk \<Rightarrow>
          (case v of
             VString s \<Rightarrow> range_params rest f (Add vs nk s) ret
           | VBytes b \<Rightarrow> range_params rest f (Add vs nk b) ret
           | VMap m \<Rightarrow>
               (case queryParams m (nk @ ''[%s]'') of
                  None \<Rightarrow> None
                | Some sub \<Rightarrow> range_params rest f vs (ret @ sub @ ''&''))
           | VInteger t i \<Rightarrow> range_params rest f (Add vs nk (decimal i)) ret
           | _ \<Rightarrow> range_params rest f vs ret))"
  by (auto simp: effective_key_def split: option.splits pvalue.splits)

lemma range_params_split:
  "range_params es f vs ret =
     (case nested_fragments es f of
        None \<Rightarrow> None
      | Some n \<Rightarrow>
          (case simple_values es f vs of
             None \<Rightarrow> None
           | Some vs' \<Rightarrow> Some (vs', ret @ n)))"
proof (induction es arbitrary: vs ret)
  case Nil
  show ?case by simp
next
  case (Cons e es)
  obtain k v where e: "e = (k, v)" by (cases e)
  show ?case
  proof (cases "effective_key f k")
    case None
    then show ?thesis
      unfolding e range_params_Cons by (cases v) simp_all
  next
    case (Some ek)
    then show ?thesis
      unfolding e range_params_Cons
      by (cases v) (simp_all add: Cons.IH split: option.splits)
  qed
qed

lemma nested_fragments_end:
  "nested_fragments es f = Some n \<Longrightarrow> n = [] \<or> last n = CHR ''&''"
proof (induction es arbitrary: n)
  case Nil
  then show ?case by simp
next
  case (Cons e es)
  obtain k v where e: "e = (k, v)" by (cases e)
  show ?case
  proof (cases v)
    case (VMap m)
    with Cons.prems e obtain fragment others where
      o: "nested_fragments es f = Some others" and n: "n = fragment @ ''&'' @ others"
      by (auto split: option.splits)
    from Cons.IH [OF o] n show ?thesis by auto
  qed (use Cons.prems e in \<open>auto split: option.splits dest: Cons.IH\<close>)
qed

lemma nested_fragments_nonempty:
  "nested_fragments es f = Some n \<Longrightarrow> \<exists>e \<in> set es. is_nested (snd e) \<Longrightarrow> n \<noteq> []"
proof (induction es arbitrary: n)
  case Nil
  then show ?case by simp
next
  case (Cons e es)
  obtain k v where e: "e = (k, v)" by (cases e)
  from Cons.prems show ?case
    unfolding e
    by (cases v) (auto split: option.splits dest: Cons.IH)
qed

lemma simple_values_none:
  "simple_values es f vs = Some vs' \<Longrightarrow> \<forall>e \<in> set es. simple_text (snd e) = None \<Longrightarrow> vs' = vs"
proof (induction es arbitrary: vs)
  case Nil
  then show ?case by simp
next
  case (Cons e es)
  obtain k v where e: "e = (k, v)" by (cases e)
  from Cons.prems show ?case
    unfolding e
    by (auto split: option.splits dest: Cons.IH)
qed

text \<open>
  C2: the encoder's output is the recursively encoded fragments of the nested-map
  entries, each followed by one \<open>&\<close>, and then the standard encoding of the simple
  entries, whatever the order in which the map is visited; a map with a nested entry
  and no simple entry has an output that ends with \<open>&\<close>.
\<close>

theorem C2_nested_then_simple:
  "queryParams params f =
     (case nested_fragments (range_of params) f of
        None \<Rightarrow> None
      | Some nested \<Rightarrow>
          (case simple_values (range_of params) f [] of
             None \<Rightarrow> None
           | Some values \<Rightarrow> Some (nested @ Encode values)))
   \<and> (\<forall>out. queryParams params f = Some out
          \<and> (\<exists>e \<in> set (range_of params). is_nested (snd e))
          \<and> (\<forall>e \<in> set (range_of params). simple_text (snd e) = None)
        \<longrightarrow> out \<noteq> [] \<and> last out = CHR ''&'')"
proof -
  have eq: "queryParams params f =
     (case nested_fragments (range_of params) f of
        None \<Rightarrow> None
      | Some nested \<Rightarrow>
          (case simple_values (range_of params) f [] of
             None \<Rightarrow> None
           | Some values \<Rightarrow> Some (nested @ Encode values)))"
    by (simp add: queryParams.simps range_params_split split: option.splits)
  have "out \<noteq> [] \<and> last out = CHR ''&''"
    if out: "queryParams params f = Some out"
      and nest: "\<exists>e \<in> set (range_of params). is_nested (snd e)"
      and nosimple: "\<forall>e \<in> set (range_of params). simple_text (snd e) = None"
    for out
  proof -
    from out eq obtain n vs where n: "nested_fragments (range_of params) f = Some n"
      and vs: "simple_values (range_of params) f [] = Some vs"
      and o: "out = n @ Encode vs"
      by (auto split: option.splits)
    from simple_values_none [OF vs nosimple] have "vs = []" .
    then have "out = n" using o by (simp add: Encode_def)
    with nested_fragments_nonempty [OF n nest] nested_fragments_end [OF n]
    show ?thesis by auto
  qed
  with eq show ?thesis by blast
qed

theorem C2_nested_then_simple_witness:
  "queryParams (Some [(''q'', VString ''v''), (''a'', VMap (Some [(''b'', VString ''1'')])),
                      (''n'', VInteger TInt 3), (''c'', VMap (Some [(''d'', VBool True)]))]) []
     = Some ''a%5Bb%5D=1&&n=3&q=v''
   \<and> queryParams (Some [(''a'', VMap (Some [(''b'', VString ''1'')])), (''z'', VBool True)]) []
     = Some ''a%5Bb%5D=1&''
   \<and> last ''a%5Bb%5D=1&'' = CHR ''&''"
proof -
  have h: "queryParams (Some [(''a'', VMap (Some [(''b'', VString ''1'')])), (''z'', VBool True)]) []
     = Some ''a%5Bb%5D=1&''"
    by (simp add: queryParams.simps range_of_def Sprintf_def Encode_def pieces_def
          shouldEscape_def upperhex_def)
  have g: "queryParams (Some [(''q'', VString ''v''), (''a'', VMap (Some [(''b'', VString ''1'')])),
                      (''n'', VInteger TInt 3), (''c'', VMap (Some [(''d'', VBool True)]))]) []
     = Some ''a%5Bb%5D=1&&n=3&q=v''"
    by code_simp
  show ?thesis
    using h g C2_nested_then_simple [of "Some [(''a'', VMap (Some [(''b'', VString ''1'')])), (''z'', VBool True)]" "[]"]
    by (simp add: range_of_def)
qed

lemma simple_values_pairs:
  "simple_values es f vs = Some vs' \<Longrightarrow> vs' = add_all (simple_pairs es f) vs"
proof (induction es arbitrary: vs)
  case Nil
  then show ?case by (simp add: simple_pairs_def add_all_def)
next
  case (Cons e es)
  obtain k v where e: "e = (k, v)" by (cases e)
  from Cons.prems show ?case
    unfolding e
    by (auto simp: simple_pairs_def add_all_def split: option.splits dest!: Cons.IH)
qed

lemma supported_simps [simp]:
  "supported (VString s)" "supported (VBytes b)" "supported (VMap m)" "supported (VInteger t i)"
  "\<not> supported VFloat64" "\<not> supported (VBool q)" "\<not> supported VNil" "\<not> supported VChan"
  by (simp_all add: supported_def)

lemma range_params_supported:
  "range_params es f vs ret = Some r \<Longrightarrow>
     range_params (filter (\<lambda>e. supported (snd e)) es) f vs ret = Some r"
proof (induction es arbitrary: vs ret)
  case Nil
  then show ?case by simp
next
  case (Cons e es)
  obtain k v where e: "e = (k, v)" by (cases e)
  from Cons.prems obtain ek where ek: "effective_key f k = Some ek"
    unfolding e range_params_Cons by (auto split: option.splits)
  from Cons.prems have step:
    "(case v of
        VString s \<Rightarrow> range_params es f (Add vs ek s) ret
      | VBytes b \<Rightarrow> range_params es f (Add vs ek b) ret
      | VMap m \<Rightarrow>
          (case queryParams m (ek @ ''[%s]'') of
             None \<Rightarrow> None
           | Some sub \<Rightarrow> range_params es f vs (ret @ sub @ ''&''))
      | VInteger t i \<Rightarrow> range_params es f (Add vs ek (decimal i)) ret
      | _ \<Rightarrow> range_params es f vs ret) = Some r"
    unfolding e range_params_Cons ek by simp
  from step show ?case
    unfolding e
    by (cases v)
       (auto simp del: range_params.simps simp add: range_params_Cons ek
             split: option.splits intro: Cons.IH)
qed

lemma doPrintf_plain_prefix:
  "CHR ''%'' \<notin> set p \<Longrightarrow>
     doPrintf (p @ rest) a used =
       (case doPrintf rest a used of None \<Rightarrow> None | Some r \<Rightarrow> Some (p @ r))"
  by (induction p) (auto split: option.splits)

lemma Sprintf_bracket:
  "CHR ''%'' \<notin> set p \<Longrightarrow> Sprintf (p @ ''[%s]'') k = Some (p @ ''['' @ k @ '']'')"
  by (simp add: Sprintf_def doPrintf_plain_prefix)

lemma effective_key_bracket:
  assumes "bracket_format f"
  shows "\<exists>ek. effective_key f k = Some ek
           \<and> (CHR ''%'' \<notin> set k \<longrightarrow> bracket_format (ek @ ''[%s]''))"
proof (cases "f = []")
  case True
  have "effective_key f k = Some k" by (simp add: True effective_key_def)
  moreover have "bracket_format (k @ ''[%s]'')" if "CHR ''%'' \<notin> set k"
    using that by (auto simp: bracket_format_def)
  ultimately show ?thesis by blast
next
  case False
  with assms obtain p where p: "CHR ''%'' \<notin> set p" and f: "f = p @ ''[%s]''"
    by (auto simp: bracket_format_def)
  have "effective_key f k = Some (p @ ''['' @ k @ '']'')"
    using False by (simp add: effective_key_def f Sprintf_bracket [OF p])
  moreover have "bracket_format ((p @ ''['' @ k @ '']'') @ ''[%s]'')" if "CHR ''%'' \<notin> set k"
  proof -
    have "CHR ''%'' \<notin> set (p @ ''['' @ k @ '']'')" using p that by simp
    then show ?thesis unfolding bracket_format_def by blast
  qed
  ultimately show ?thesis by blast
qed

lemma plain_total:
  "(plain_value (VMap params) \<longrightarrow> bracket_format f \<longrightarrow> queryParams params f \<noteq> None)"
  "(plain_entries es \<longrightarrow> bracket_format f \<longrightarrow> range_params es f vs ret \<noteq> None)"
proof (induction params f and es f vs ret rule: queryParams_range_params.induct)
  case (1 params format)
  then show ?case
    by (cases params) (auto simp: queryParams.simps range_of_def split: option.splits)
next
  case (2 format "values" ret)
  show ?case by simp
next
  case (3 k v rest format "values" ret)
  show ?case
  proof (intro impI)
    assume pl: "plain_entries ((k, v) # rest)" and bf: "bracket_format format"
    from effective_key_bracket [OF bf, of k]
    obtain ek where ek: "effective_key format k = Some ek"
      and next_format: "CHR ''%'' \<notin> set k \<Longrightarrow> bracket_format (ek @ ''[%s]'')"
      by blast
    have code: "(if length format \<noteq> 0 then Sprintf format k else Some k) = Some ek"
      using ek by (auto simp: effective_key_def split: if_splits)
    from pl have rest: "plain_entries rest" by simp
    show "range_params ((k, v) # rest) format values ret \<noteq> None"
    proof (cases v)
      case (VMap m)
      with pl have "CHR ''%'' \<notin> set k" and pm: "plain_value (VMap m)" by simp_all
      then have bf': "bracket_format (ek @ ''[%s]'')" using next_format by simp
      from "3.IH"(3) [OF code VMap] pm bf' obtain sub where
        sub: "queryParams m (ek @ ''[%s]'') = Some sub" by auto
      from "3.IH"(4) [OF code VMap sub] rest bf show ?thesis
        by (simp del: range_params.simps add: range_params_Cons ek VMap sub)
    next
      case (VString s)
      from "3.IH"(1) [OF code VString] rest bf show ?thesis
        by (simp del: range_params.simps add: range_params_Cons ek VString)
    next
      case (VBytes b)
      from "3.IH"(2) [OF code VBytes] rest bf show ?thesis
        by (simp del: range_params.simps add: range_params_Cons ek VBytes)
    next
      case (VInteger t i)
      from "3.IH"(5) [OF code VInteger] rest bf show ?thesis
        by (simp del: range_params.simps add: range_params_Cons ek VInteger)
    next
      case VFloat64
      from "3.IH"(6) [OF code VFloat64] rest bf show ?thesis
        by (simp del: range_params.simps add: range_params_Cons ek VFloat64)
    next
      case (VBool q)
      from "3.IH"(7) [OF code VBool] rest bf show ?thesis
        by (simp del: range_params.simps add: range_params_Cons ek VBool)
    next
      case VNil
      from "3.IH"(8) [OF code VNil] rest bf show ?thesis
        by (simp del: range_params.simps add: range_params_Cons ek VNil)
    next
      case VChan
      from "3.IH"(9) [OF code VChan] rest bf show ?thesis
        by (simp del: range_params.simps add: range_params_Cons ek VChan)
    qed
  qed
qed

text \<open>
  C4: the values the encoder hands to the standard encoding are, for every map, the
  string and byte-sequence values as they are and the integers of every type in
  decimal, each under its effective key, and nothing else; leaving out the entries of
  any other type (floating-point, boolean, nil, channel) does not change the output,
  and a map is encoded whatever types its values have (in this model, when no key of
  a nested-map entry holds a percent sign).
\<close>

theorem C4_variants:
  "(\<forall>out. queryParams params f = Some out \<longrightarrow>
      (\<exists>nested. nested_fragments (range_of params) f = Some nested
         \<and> out = nested @ Encode (add_all (simple_pairs (range_of params) f) []))
      \<and> queryParams (Some (filter (\<lambda>e. supported (snd e)) (range_of params))) f = Some out)
   \<and> (plain_value (VMap params) \<longrightarrow> queryParams params [] \<noteq> None)"
proof -
  have a: "\<exists>nested. nested_fragments (range_of params) f = Some nested
         \<and> out = nested @ Encode (add_all (simple_pairs (range_of params) f) [])"
    if "queryParams params f = Some out" for out
    using that
    by (auto simp: queryParams.simps range_params_split split: option.splits
             dest!: simple_values_pairs)
  have b: "queryParams (Some (filter (\<lambda>e. supported (snd e)) (range_of params))) f = Some out"
    if "queryParams params f = Some out" for out
  proof -
    from that obtain vs ret where r: "range_params (range_of params) f [] [] = Some (vs, ret)"
      and o: "out = ret @ Encode vs"
      by (auto simp: queryParams.simps split: option.splits)
    from range_params_supported [OF r] o show ?thesis
      by (simp add: queryParams.simps range_of_def)
  qed
  have c: "queryParams params [] \<noteq> None" if "plain_value (VMap params)"
    using plain_total(1) [of params "[]"] that by (simp add: bracket_format_def)
  from a b c show ?thesis by blast
qed

theorem C4_variants_witness:
  "queryParams (Some [(''s'', VString ''a b''), (''f'', VFloat64), (''y'', VBytes ''x&y''),
                      (''t'', VBool True), (''i'', VInteger TInt8 (- 5)), (''u'', VInteger TUint64 42),
                      (''n'', VNil), (''c'', VChan)]) []
     = Some ''i=-5&s=a+b&u=42&y=x%26y''
   \<and> simple_pairs [(''s'', VString ''a b''), (''f'', VFloat64), (''y'', VBytes ''x&y''),
                      (''t'', VBool True), (''i'', VInteger TInt8 (- 5)), (''u'', VInteger TUint64 42),
                      (''n'', VNil), (''c'', VChan)] []
     = [(''s'', ''a b''), (''y'', ''x&y''), (''i'', ''-5''), (''u'', ''42'')]
   \<and> queryParams (Some [(''s'', VString ''a b''), (''y'', VBytes ''x&y''),
                      (''i'', VInteger TInt8 (- 5)), (''u'', VInteger TUint64 42)]) []
     = Some ''i=-5&s=a+b&u=42&y=x%26y''"
proof -
  have h: "queryParams (Some [(''s'', VString ''a b''), (''f'', VFloat64), (''y'', VBytes ''x&y''),
                      (''t'', VBool True), (''i'', VInteger TInt8 (- 5)), (''u'', VInteger TUint64 42),
                      (''n'', VNil), (''c'', VChan)]) []
     = Some ''i=-5&s=a+b&u=42&y=x%26y''"
    by code_simp
  have p: "simple_pairs [(''s'', VString ''a b''), (''f'', VFloat64), (''y'', VBytes ''x&y''),
                      (''t'', VBool True), (''i'', VInteger TInt8 (- 5)), (''u'', VInteger TUint64 42),
                      (''n'', VNil), (''c'', VChan)] []
     = [(''s'', ''a b''), (''y'', ''x&y''), (''i'', ''-5''), (''u'', ''42'')]"
    by code_simp
  show ?thesis
    using h p C4_variants [of "Some [(''s'', VString ''a b''), (''f'', VFloat64), (''y'', VBytes ''x&y''),
                      (''t'', VBool True), (''i'', VInteger TInt8 (- 5)), (''u'', VInteger TUint64 42),
                      (''n'', VNil), (''c'', VChan)]" "[]"]
    by (simp add: range_of_def)
qed

section \<open>Decoding the encoder's output\<close>

lemma of_char_lt_256: "(of_char (c::char) :: nat) < 256"
  by (cases c) simp

lemma unhex_upperhex: "n < 16 \<Longrightarrow> unhex (upperhex ! n) = Some n"
proof -
  assume "n < 16"
  then have "n \<in> {0,1,2,3,4,5,6,7,8,9,10,11,12,13,14,15}" by (simp, presburger)
  then show ?thesis
    by (auto simp: unhex_def upperhex_def less_eq_char_def)
qed

lemma upperhex_clean: "n < 16 \<Longrightarrow> upperhex ! n \<notin> {CHR ''&'', CHR ''='', CHR '';''}"
proof -
  assume "n < 16"
  then have "n \<in> {0,1,2,3,4,5,6,7,8,9,10,11,12,13,14,15}" by (simp, presburger)
  then show ?thesis
    by (auto simp: upperhex_def)
qed

lemma shouldEscape_special [simp]:
  "shouldEscape CHR ''&''" "shouldEscape CHR ''=''" "shouldEscape CHR '';''"
  "shouldEscape CHR ''%''" "shouldEscape CHR ''+''"
  by (simp_all add: shouldEscape_def less_eq_char_def)

lemma QueryEscape_clean:
  "c \<in> set (QueryEscape s) \<Longrightarrow> c \<noteq> CHR ''&'' \<and> c \<noteq> CHR ''='' \<and> c \<noteq> CHR '';''"
proof (induction s)
  case Nil
  then show ?case by simp
next
  case (Cons a s)
  have d: "of_char a div 16 < (16::nat)" and m: "of_char a mod 16 < (16::nat)"
    using of_char_lt_256 [of a] by (presburger+)
  from Cons upperhex_clean [OF d] upperhex_clean [OF m] show ?case
    by (auto split: if_splits)
qed

lemma QueryUnescape_QueryEscape: "QueryUnescape (QueryEscape s) = Inr s"
proof (induction s)
  case Nil
  show ?case by simp
next
  case (Cons a s)
  have d: "of_char a div 16 < (16::nat)" and m: "of_char a mod 16 < (16::nat)"
    using of_char_lt_256 [of a] by (presburger+)
  have same: "char_of (of_char a div 16 * 16 + of_char a mod (16::nat)) = a"
    by simp
  show ?case
  proof (cases "a = CHR '' ''")
    case True
    then show ?thesis by (simp add: Cons.IH)
  next
    case sp: False
    show ?thesis
    proof (cases "shouldEscape a")
      case True
      then show ?thesis
        using sp by (simp add: Cons.IH unhex_upperhex [OF d] unhex_upperhex [OF m] same)
    next
      case False
      then have "a \<noteq> CHR ''%''" "a \<noteq> CHR ''+''" by auto
      with False sp show ?thesis by (simp add: Cons.IH)
    qed
  qed
qed


lemma Cut_found: "sep \<notin> set p \<Longrightarrow> Cut (p @ sep # rest) sep = (p, rest)"
proof -
  assume "sep \<notin> set p"
  then have "\<forall>x \<in> set p. x \<noteq> sep" by auto
  then show ?thesis by (simp add: Cut_def)
qed

lemma Cut_not_found: "sep \<notin> set p \<Longrightarrow> Cut p sep = (p, [])"
proof -
  assume "sep \<notin> set p"
  then have "\<forall>x \<in> set p. x \<noteq> sep" by auto
  then have t: "takeWhile (\<lambda>c. c \<noteq> sep) p = p" and d: "dropWhile (\<lambda>c. c \<noteq> sep) p = []"
    by simp_all
  show ?thesis by (simp only: Cut_def t d drop_Nil)
qed

lemma piece_clean:
  "CHR ''&'' \<notin> set (piece kt)" "CHR '';'' \<notin> set (piece kt)" "piece kt \<noteq> []"
  using QueryEscape_clean [of _ "fst kt"] QueryEscape_clean [of _ "snd kt"]
  by (auto simp: piece_def)

lemma Cut_piece: "Cut (piece kt) CHR ''='' = (QueryEscape (fst kt), QueryEscape (snd kt))"
proof -
  have "CHR ''='' \<notin> set (QueryEscape (fst kt))"
    using QueryEscape_clean [of _ "fst kt"] by auto
  from Cut_found [OF this] show ?thesis by (simp add: piece_def)
qed

lemma parseQuery_last: "parseQuery m err (piece kt) = (Add m (fst kt) (snd kt), err)"
proof -
  have c: "Cut (piece kt) CHR ''&'' = (piece kt, [])"
    by (rule Cut_not_found) (rule piece_clean)
  have e: "parseQuery (Add m (fst kt) (snd kt)) err [] = (Add m (fst kt) (snd kt), err)"
    by (simp add: parseQuery.simps)
  show ?thesis
    by (subst parseQuery.simps)
       (simp add: c piece_clean Cut_piece QueryUnescape_QueryEscape e)
qed

lemma parseQuery_step:
  "parseQuery m err (piece kt @ CHR ''&'' # rest) = parseQuery (Add m (fst kt) (snd kt)) err rest"
proof -
  have c: "Cut (piece kt @ CHR ''&'' # rest) CHR ''&'' = (piece kt, rest)"
    by (rule Cut_found) (rule piece_clean)
  show ?thesis
    by (subst parseQuery.simps)
       (simp add: c piece_clean Cut_piece QueryUnescape_QueryEscape)
qed

lemma parseQuery_join:
  "parseQuery m err (join_amp (map piece kts)) = (add_all kts m, err)"
proof (induction kts arbitrary: m)
  case Nil
  show ?case by (simp add: parseQuery.simps add_all_def)
next
  case (Cons kt kts)
  show ?case
  proof (cases kts)
    case Nil
    then show ?thesis by (simp add: parseQuery_last add_all_def split: prod.splits)
  next
    case (Cons kt' kts')
    have "parseQuery m err (join_amp (map piece (kt # kts))) =
          parseQuery (Add m (fst kt) (snd kt)) err (join_amp (map piece kts))"
      unfolding Cons by (simp add: parseQuery_step)
    also have "\<dots> = (add_all kts (Add m (fst kt) (snd kt)), err)"
      by (rule Cons.IH)
    finally show ?thesis by (simp add: add_all_def split: prod.splits)
  qed
qed

lemma Add_fresh: "k \<notin> fst ` set vs \<Longrightarrow> Add vs k t = vs @ [(k, [t])]"
  by (induction vs) auto

lemma add_all_distinct:
  "distinct (map fst vs @ map fst kts) \<Longrightarrow> add_all kts vs = vs @ single kts"
proof (induction kts arbitrary: vs)
  case Nil
  show ?case by (simp add: add_all_def single_def)
next
  case (Cons kt kts)
  obtain k t where kt: "kt = (k, t)" by (cases kt)
  from Cons.prems have fresh: "k \<notin> fst ` set vs" by (auto simp: kt)
  from Cons.prems have d: "distinct (map fst (vs @ [(k, [t])]) @ map fst kts)"
    by (auto simp: kt)
  have "add_all (kt # kts) vs = add_all kts (Add vs k t)"
    by (simp add: add_all_def kt)
  also have "\<dots> = add_all kts (vs @ [(k, [t])])"
    by (simp add: Add_fresh [OF fresh])
  also have "\<dots> = (vs @ [(k, [t])]) @ single kts"
    by (rule Cons.IH [OF d])
  finally show ?case by (simp add: single_def kt)
qed

lemma map_of_single: "map_of (single kts) k = map_option (\<lambda>t. [t]) (map_of kts k)"
  by (induction kts) (auto simp: single_def)

lemma pieces_single:
  "pieces (single kts) k = (case map_of kts k of None \<Rightarrow> [] | Some t \<Rightarrow> [piece (k, t)])"
  by (simp add: pieces_def map_of_single piece_def split: option.splits)

lemma concat_pieces_single:
  "set ks \<subseteq> fst ` set kts \<Longrightarrow>
     concat (map (pieces (single kts)) ks) = map piece (map (\<lambda>k. (k, the (map_of kts k))) ks)"
proof (induction ks)
  case Nil
  show ?case by simp
next
  case (Cons k ks)
  from Cons.prems have "k \<in> fst ` set kts" by simp
  then obtain t where "map_of kts k = Some t"
    by (metis domD dom_map_of_conv_image_fst)
  with Cons show ?case by (simp add: pieces_single)
qed

lemma Encode_single:
  "Encode (single kts) =
     join_amp (map piece (map (\<lambda>k. (k, the (map_of kts k))) (sort (map fst kts))))"
proof -
  have "map fst (single kts) = map fst kts" by (simp add: single_def comp_def)
  moreover have "set (sort (map fst kts)) \<subseteq> fst ` set kts" by simp
  ultimately show ?thesis by (simp add: Encode_def concat_pieces_single)
qed

lemma map_of_key_list:
  "map_of (map (\<lambda>k. (k, g k)) ks) k = (if k \<in> set ks then Some (g k) else None)"
  by (induction ks) auto

lemma ParseQuery_Encode_single:
  assumes "distinct (map fst kts)"
  shows "snd (ParseQuery (Encode (single kts))) = None"
    and "map_of (fst (ParseQuery (Encode (single kts)))) k = map_option (\<lambda>t. [t]) (map_of kts k)"
proof -
  let ?sorted = "map (\<lambda>k. (k, the (map_of kts k))) (sort (map fst kts))"
  have p: "ParseQuery (Encode (single kts)) = (add_all ?sorted [], None)"
    by (simp only: ParseQuery_def Encode_single parseQuery_join)
  show "snd (ParseQuery (Encode (single kts))) = None" by (simp add: p)
  have "map fst ?sorted = sort (map fst kts)" by (simp add: comp_def)
  with assms have "distinct (map fst [] @ map fst ?sorted)" by simp
  from add_all_distinct [OF this] have a: "add_all ?sorted [] = single ?sorted" by simp
  have "map_of (single ?sorted) k = map_option (\<lambda>t. [t]) (map_of ?sorted k)"
    by (rule map_of_single)
  also have "map_of ?sorted k = (if k \<in> set (sort (map fst kts)) then Some (the (map_of kts k)) else None)"
    by (rule map_of_key_list)
  also have "\<dots> = map_of kts k"
  proof (cases "map_of kts k")
    case None
    then have "k \<notin> fst ` set kts" by (simp add: map_of_eq_None_iff)
    with None show ?thesis by simp
  next
    case (Some t)
    then have "k \<in> fst ` set kts" by (metis map_of_eq_None_iff option.distinct(1))
    with Some show ?thesis by simp
  qed
  finally show "map_of (fst (ParseQuery (Encode (single kts)))) k = map_option (\<lambda>t. [t]) (map_of kts k)"
    by (simp add: p a)
qed

lemma flat_range_params:
  "\<forall>e \<in> set es. is_string_or_int (snd e) \<Longrightarrow>
     range_params es [] vs ret = Some (add_all (simple_pairs es []) vs, ret)"
proof (induction es arbitrary: vs)
  case Nil
  show ?case by (simp add: simple_pairs_def add_all_def)
next
  case (Cons e es)
  obtain k v where e: "e = (k, v)" by (cases e)
  from Cons.prems have "\<forall>e \<in> set es. is_string_or_int (snd e)" by simp
  note IH = Cons.IH [OF this]
  from Cons.prems show ?case
    unfolding e
    by (cases v) (simp_all add: IH simple_pairs_def add_all_def effective_key_def)
qed

lemma flat_simple_pairs:
  assumes "\<forall>e \<in> set es. is_string_or_int (snd e)"
  shows "map fst (simple_pairs es []) = map fst es"
    and "map_of (simple_pairs es []) k =
           (case map_of es k of None \<Rightarrow> None | Some v \<Rightarrow> simple_text v)"
  using assms
proof (induction es)
  case Nil
  {
    case 1
    show ?case by (simp add: simple_pairs_def)
  next
    case 2
    show ?case by (simp add: simple_pairs_def)
  }
next
  case (Cons e es)
  obtain k' v where e: "e = (k', v)" by (cases e)
  {
    case 1
    with Cons.IH(1) show ?case
      unfolding e by (cases v) (simp_all add: simple_pairs_def effective_key_def)
  next
    case 2
    with Cons.IH(2) show ?case
      unfolding e by (cases v) (simp_all add: simple_pairs_def effective_key_def)
  }
qed

text \<open>
  C3: for a map whose values are strings and integers only, the encoder with the empty
  key format yields an output that standard query-string decoding accepts without error
  and decodes to the mapping from each key of the map to the one string that
  represents its value (a string itself, an integer in decimal), and to nothing for
  any other key.
\<close>

theorem C3_roundtrip:
  assumes "distinct (map fst (range_of params))"
    and "\<forall>e \<in> set (range_of params). is_string_or_int (snd e)"
  shows "\<exists>out. queryParams params [] = Some out
           \<and> snd (ParseQuery out) = None
           \<and> (\<forall>k. map_of (fst (ParseQuery out)) k =
                 (case map_of (range_of params) k of
                    None \<Rightarrow> None
                  | Some v \<Rightarrow> map_option (\<lambda>text. [text]) (simple_text v)))"
proof -
  let ?kts = "simple_pairs (range_of params) []"
  have keys: "map fst ?kts = map fst (range_of params)"
    by (rule flat_simple_pairs(1) [OF assms(2)])
  with assms(1) have d: "distinct (map fst ?kts)" by simp
  then have "distinct (map fst [] @ map fst ?kts)" by simp
  from add_all_distinct [OF this] have a: "add_all ?kts [] = single ?kts" by simp
  have out: "queryParams params [] = Some (Encode (single ?kts))"
    by (simp add: queryParams.simps flat_range_params [OF assms(2)] a)
  have "map_of (fst (ParseQuery (Encode (single ?kts)))) k =
          (case map_of (range_of params) k of
             None \<Rightarrow> None
           | Some v \<Rightarrow> map_option (\<lambda>text. [text]) (simple_text v))" for k
    by (simp add: ParseQuery_Encode_single(2) [OF d] flat_simple_pairs(2) [OF assms(2)]
          split: option.splits)
  with out ParseQuery_Encode_single(1) [OF d] show ?thesis by blast
qed

theorem C3_roundtrip_witness:
  "distinct (map fst [(''q'', VString ''a b&c''), (''n'', VInteger TInt (- 7))])
   \<and> queryParams (Some [(''q'', VString ''a b&c''), (''n'', VInteger TInt (- 7))]) []
       = Some ''n=-7&q=a+b%26c''
   \<and> ParseQuery ''n=-7&q=a+b%26c'' = ([(''n'', [''-7'']), (''q'', [''a b&c''])], None)"
proof -
  have d: "distinct (map fst (range_of (Some [(''q'', VString ''a b&c''), (''n'', VInteger TInt (- 7))])))"
    by (simp add: range_of_def)
  have f: "\<forall>e \<in> set (range_of (Some [(''q'', VString ''a b&c''), (''n'', VInteger TInt (- 7))])).
             is_string_or_int (snd e)"
    by (simp add: range_of_def)
  have q: "queryParams (Some [(''q'', VString ''a b&c''), (''n'', VInteger TInt (- 7))]) []
       = Some ''n=-7&q=a+b%26c''"
    by code_simp
  have p: "ParseQuery ''n=-7&q=a+b%26c'' = ([(''n'', [''-7'']), (''q'', [''a b&c''])], None)"
    by code_simp
  show ?thesis
    using q p C3_roundtrip [OF d f] by simp
qed

section \<open>Requests: URL, parameters, headers and body\<close>

lemma queryParams_nil: "queryParams None f = Some []"
  by (simp add: queryParams.simps range_of_def Encode_def)

lemma do_Inr:
  "do accepts method typ url params header d = Some (Inr (c, r)) \<Longrightarrow>
     c = clientPool \<and> req_Method r = method \<and> req_URL r = url \<and> req_Header r = header
     \<and> getData typ params = Some (req_Body r)"
  by (auto simp: do_def makeRequest_def http_NewRequest_def Client_Do_def
           split: option.splits sum.splits if_splits)

text \<open>
  C5: a request built with method GET has the given URL, then \<open>?\<close>, then the
  encoder's output for the parameters and the empty key format, as its URL, and so has
  the URL that \<open>Get\<close> asks the client for; a GET to \<open>http://x/y\<close> with the parameters
  \<open>{"q": "v"}\<close> has the URL \<open>http://x/y?q=v\<close>.
\<close>

theorem C5_get_url:
  "NewRequest GetMethod ct url params header timeout =
     map_option
       (\<lambda>qs. \<lparr> Method = GetMethod, ContentType = ct, Url = url @ ''?'' @ qs, Params = None,
                Header = header, Timeout = timeout \<rparr>)
       (queryParams params [])
   \<and> Get accepts url params =
       map_option (\<lambda>qs. Client_Get accepts clientPool (url @ ''?'' @ qs)) (queryParams params [])
   \<and> map_option Url
         (NewRequest GetMethod ct ''http://x/y'' (Some [(''q'', VString ''v'')]) header timeout)
       = Some ''http://x/y?q=v''"
  by (simp add: NewRequest_def Get_def getRequestURL_def queryParams.simps range_of_def
        Encode_def pieces_def shouldEscape_def split: option.splits)

theorem C5_get_url_witness:
  "NewRequest ''GET'' FormType ''http://x/y'' (Some [(''q'', VString ''v'')]) None 5 =
     Some \<lparr> Method = ''GET'', ContentType = FormType, Url = ''http://x/y?q=v'', Params = None,
            Header = None, Timeout = 5 \<rparr>"
  using C5_get_url [of FormType "''http://x/y''" "Some [(''q'', VString ''v'')]" None 5]
  by (simp add: GetMethod_def queryParams.simps range_of_def Encode_def pieces_def
        shouldEscape_def)

text \<open>
  C6: a request constructed with method GET has its parameters folded into its URL
  and a nil \<open>Params\<close> field; at dispatch \<open>DoRequest\<close> hands that nil map on, and
  encoding it again yields the empty string, so the parameters are encoded once, at
  construction.
\<close>

theorem C6_get_params_folded:
  assumes "NewRequest GetMethod ct url params header timeout = Some r"
  shows "Params r = None
     \<and> (\<exists>qs. queryParams params [] = Some qs \<and> Url r = url @ ''?'' @ qs)
     \<and> queryParams (Params r) [] = Some []
     \<and> DoRequest accepts r = do accepts GetMethod ct (Url r) None header timeout"
  using assms
  by (auto simp: NewRequest_def getRequestURL_def DoRequest_def queryParams_nil
           split: option.splits)

theorem C6_get_params_folded_witness:
  "NewRequest GetMethod FormType ''http://x/y'' (Some [(''q'', VString ''v'')]) None 5 =
     Some \<lparr> Method = ''GET'', ContentType = FormType, Url = ''http://x/y?q=v'', Params = None,
            Header = None, Timeout = 5 \<rparr>
   \<and> DoRequest (\<lambda>m u. True)
         \<lparr> Method = ''GET'', ContentType = FormType, Url = ''http://x/y?q=v'', Params = None,
           Header = None, Timeout = 5 \<rparr> =
       do (\<lambda>m u. True) GetMethod FormType ''http://x/y?q=v'' None None 5"
proof -
  have h: "NewRequest GetMethod FormType ''http://x/y'' (Some [(''q'', VString ''v'')]) None 5 =
     Some \<lparr> Method = ''GET'', ContentType = FormType, Url = ''http://x/y?q=v'', Params = None,
            Header = None, Timeout = 5 \<rparr>"
    by (simp add: NewRequest_def GetMethod_def getRequestURL_def queryParams.simps range_of_def
          Encode_def pieces_def shouldEscape_def)
  show ?thesis using h C6_get_params_folded [OF h, of "\<lambda>m u. True"] by simp
qed

text \<open>
  C7: \<open>Form\<close> and \<open>Json\<close> dispatch a POST whose header map is the caller's, or a
  new one when the caller gave none, with \<open>Content-Type\<close> set to
  \<open>application/x-www-form-urlencoded\<close> and to \<open>application/json;charset=utf-8\<close>: in
  the request sent every other header entry is the caller's, and the body is the
  encoder's output (\<open>k=v\<close> for \<open>{"k": "v"}\<close>) and the JSON text (\<open>{"n":3}\<close> for
  \<open>{"n": 3}\<close>).
\<close>

theorem C7_form_json_content_type:
  "Form accepts url params header d =
     do accepts PostMethod FormType url params
       (Some ((case header of None \<Rightarrow> Map.empty | Some h \<Rightarrow> h)
                (''Content-Type'' \<mapsto> [''application/x-www-form-urlencoded'']))) d
   \<and> Json accepts url params header d =
     do accepts PostMethod JsonType url params
       (Some ((case header of None \<Rightarrow> Map.empty | Some h \<Rightarrow> h)
                (''Content-Type'' \<mapsto> [''application/json;charset=utf-8'']))) d
   \<and> (\<forall>c r. Form accepts url params header d = Some (Inr (c, r)) \<longrightarrow>
         req_Method r = ''POST'' \<and> queryParams params [] = Some (req_Body r)
         \<and> (\<exists>h. req_Header r = Some h
                \<and> h ''Content-Type'' = Some [''application/x-www-form-urlencoded'']
                \<and> (\<forall>key. key \<noteq> ''Content-Type'' \<longrightarrow>
                      h key = (case header of None \<Rightarrow> None | Some h0 \<Rightarrow> h0 key))))
   \<and> (\<forall>c r. Json accepts url params header d = Some (Inr (c, r)) \<longrightarrow>
         req_Method r = ''POST'' \<and> map_option fst (json_Marshal params) = Some (req_Body r)
         \<and> (\<exists>h. req_Header r = Some h
                \<and> h ''Content-Type'' = Some [''application/json;charset=utf-8'']
                \<and> (\<forall>key. key \<noteq> ''Content-Type'' \<longrightarrow>
                      h key = (case header of None \<Rightarrow> None | Some h0 \<Rightarrow> h0 key))))
   \<and> getData FormType (Some [(''k'', VString ''v'')]) = Some ''k=v''
   \<and> getData JsonType (Some [(''n'', VInteger t 3)]) = Some ''{\"n\":3}''"
proof -
  have form: "Form accepts url params header d =
     do accepts PostMethod FormType url params
       (Some ((case header of None \<Rightarrow> Map.empty | Some h \<Rightarrow> h)
                (''Content-Type'' \<mapsto> [''application/x-www-form-urlencoded'']))) d"
    by (simp add: Form_def Header_Set_def FormType_def)
  have json: "Json accepts url params header d =
     do accepts PostMethod JsonType url params
       (Some ((case header of None \<Rightarrow> Map.empty | Some h \<Rightarrow> h)
                (''Content-Type'' \<mapsto> [''application/json;charset=utf-8'']))) d"
    by (simp add: Json_def Header_Set_def)
  have sent_form: "\<forall>c r. Form accepts url params header d = Some (Inr (c, r)) \<longrightarrow>
         req_Method r = ''POST'' \<and> queryParams params [] = Some (req_Body r)
         \<and> (\<exists>h. req_Header r = Some h
                \<and> h ''Content-Type'' = Some [''application/x-www-form-urlencoded'']
                \<and> (\<forall>key. key \<noteq> ''Content-Type'' \<longrightarrow>
                      h key = (case header of None \<Rightarrow> None | Some h0 \<Rightarrow> h0 key)))"
    unfolding form
    by (auto dest!: do_Inr simp: PostMethod_def getData_def FormType_def JsonType_def
             split: option.splits)
  have sent_json: "\<forall>c r. Json accepts url params header d = Some (Inr (c, r)) \<longrightarrow>
         req_Method r = ''POST'' \<and> map_option fst (json_Marshal params) = Some (req_Body r)
         \<and> (\<exists>h. req_Header r = Some h
                \<and> h ''Content-Type'' = Some [''application/json;charset=utf-8'']
                \<and> (\<forall>key. key \<noteq> ''Content-Type'' \<longrightarrow>
                      h key = (case header of None \<Rightarrow> None | Some h0 \<Rightarrow> h0 key)))"
    unfolding json
    by (auto dest!: do_Inr simp: PostMethod_def getData_def split: option.splits)
  have body_form: "getData FormType (Some [(''k'', VString ''v'')]) = Some ''k=v''"
    by (simp add: getData_def FormType_def JsonType_def queryParams.simps range_of_def
          Encode_def pieces_def shouldEscape_def)
  have body_json: "getData JsonType (Some [(''n'', VInteger t 3)]) = Some ''{\"n\":3}''"
    by (simp add: getData_def json_Marshal_def quoted_def dquote_def backslash_def
          decimal_def digits.simps)
  from form json sent_form sent_json body_form body_json show ?thesis by blast
qed

theorem C7_form_json_content_type_witness:
  "Form (\<lambda>m u. True) ''http://x/y'' (Some [(''k'', VString ''v'')])
       (Some [''X-Id'' \<mapsto> [''7''], ''Content-Type'' \<mapsto> [''text/plain'']]) 5 =
     Some (Inr (clientPool,
       \<lparr> req_Method = ''POST'', req_URL = ''http://x/y'', req_Body = ''k=v'',
         req_Header = Some [''X-Id'' \<mapsto> [''7''],
                            ''Content-Type'' \<mapsto> [''application/x-www-form-urlencoded'']] \<rparr>))
   \<and> Json (\<lambda>m u. True) ''http://x/y'' (Some [(''n'', VInteger TInt 3)]) None 5 =
     Some (Inr (clientPool,
       \<lparr> req_Method = ''POST'', req_URL = ''http://x/y'', req_Body = ''{\"n\":3}'',
         req_Header = Some [''Content-Type'' \<mapsto> [''application/json;charset=utf-8'']] \<rparr>))"
  using C7_form_json_content_type [of "\<lambda>m u. True" "''http://x/y''" "Some [(''k'', VString ''v'')]"
          "Some [''X-Id'' \<mapsto> [''7''], ''Content-Type'' \<mapsto> [''text/plain'']]" 5 TInt]
        C7_form_json_content_type [of "\<lambda>m u. True" "''http://x/y''" "Some [(''n'', VInteger TInt 3)]"
          None 5 TInt]
  by (simp add: do_def makeRequest_def http_NewRequest_def Client_Do_def PostMethod_def)

text \<open>
  C8: with the JSON content type the body is the bytes \<open>json.Marshal\<close> returns and
  its error is dropped: when the serialization of the map fails the body is empty and
  no error is reported, when it succeeds the body is the JSON text of the map.
\<close>

theorem C8_json_failure_swallowed:
  assumes "json_Marshal params = Some (js, err)"
  shows "getData JsonType params = Some js \<and> (err \<noteq> None \<longrightarrow> js = [])
     \<and> (err = None \<longrightarrow> marshalValue (VMap params) = Some (Inr js))"
  using assms
  by (auto simp: getData_def json_Marshal_def split: option.splits sum.splits)

theorem C8_json_failure_swallowed_witness:
  "json_Marshal (Some [(''c'', VChan)]) = Some ([], Some UnsupportedTypeError)
   \<and> getData JsonType (Some [(''c'', VChan)]) = Some []
   \<and> json_Marshal (Some [(''n'', VInteger TInt 3)]) = Some (''{\"n\":3}'', None)
   \<and> getData JsonType (Some [(''n'', VInteger TInt 3)]) = Some ''{\"n\":3}''"
proof -
  have f: "json_Marshal (Some [(''c'', VChan)]) = Some ([], Some UnsupportedTypeError)"
    by (simp add: json_Marshal_def quoted_def dquote_def backslash_def)
  have g: "json_Marshal (Some [(''n'', VInteger TInt 3)]) = Some (''{\"n\":3}'', None)"
    by (simp add: json_Marshal_def quoted_def dquote_def backslash_def decimal_def digits.simps)
  show ?thesis
    using f g C8_json_failure_swallowed [OF f] C8_json_failure_swallowed [OF g] by simp
qed

text \<open>
  C9: the duration handed to the dispatch path has no effect: two calls of \<open>do\<close>,
  \<open>Form\<close>, \<open>Json\<close>, \<open>Auto\<close> or \<open>DoRequest\<close> that differ in the duration alone
  build and send the same request, and every request is sent with the one client
  \<open>clientPool\<close>, whose timeout of 30 seconds and whose transport are constants.
\<close>

theorem C9_duration_ignored:
  "do accepts method typ url params header d1 = do accepts method typ url params header d2
   \<and> Form accepts url params header d1 = Form accepts url params header d2
   \<and> Json accepts url params header d1 = Json accepts url params header d2
   \<and> Auto accepts method typ url params header d1 = Auto accepts method typ url params header d2
   \<and> DoRequest accepts (req\<lparr>Timeout := d1\<rparr>) = DoRequest accepts (req\<lparr>Timeout := d2\<rparr>)
   \<and> (\<forall>c r. do accepts method typ url params header d1 = Some (Inr (c, r)) \<longrightarrow>
         c = clientPool \<and> ClientTimeout c = 30 * Second \<and> ClientTransport c = transport)"
  by (auto simp: Form_def Json_def Auto_def DoRequest_def clientPool_def dest!: do_Inr)
     (simp_all add: do_def)

theorem C9_duration_ignored_witness:
  "do (\<lambda>m u. True) ''POST'' FormType ''http://x/y'' (Some [(''k'', VString ''v'')]) None 1 =
     Some (Inr (clientPool,
       \<lparr> req_Method = ''POST'', req_URL = ''http://x/y'', req_Body = ''k=v'', req_Header = None \<rparr>))
   \<and> do (\<lambda>m u. True) ''POST'' FormType ''http://x/y'' (Some [(''k'', VString ''v'')]) None (60 * Second) =
     Some (Inr (clientPool,
       \<lparr> req_Method = ''POST'', req_URL = ''http://x/y'', req_Body = ''k=v'', req_Header = None \<rparr>))
   \<and> ClientTimeout clientPool = 30000000000"
proof -
  have h: "do (\<lambda>m u. True) ''POST'' FormType ''http://x/y'' (Some [(''k'', VString ''v'')]) None 1 =
     Some (Inr (clientPool,
       \<lparr> req_Method = ''POST'', req_URL = ''http://x/y'', req_Body = ''k=v'', req_Header = None \<rparr>))"
    by (simp add: do_def makeRequest_def getData_def FormType_def JsonType_def http_NewRequest_def
          Client_Do_def queryParams.simps range_of_def Encode_def pieces_def shouldEscape_def)
  show ?thesis
    using h C9_duration_ignored [of "\<lambda>m u. True" "''POST''" FormType "''http://x/y''"
        "Some [(''k'', VString ''v'')]" None 1 "60 * Second"]
    by (simp add: Second_def)
qed

text \<open>
  C10: \<open>Auto\<close> with method GET is \<open>Get\<close> on the URL and the parameters alone: its
  result does not depend on the header map or the duration of the caller, and the
  request it sends has the empty header map of a new request, so none of the caller's
  headers.
\<close>

theorem C10_auto_get_drops_headers:
  "Auto accepts GetMethod typ url params header d = Get accepts url params
   \<and> Auto accepts GetMethod typ url params header d = Auto accepts GetMethod typ url params header' d'
   \<and> (\<forall>c r. Auto accepts GetMethod typ url params header d = Some (Inr (c, r)) \<longrightarrow>
         c = clientPool \<and> req_Method r = ''GET'' \<and> req_Body r = [] \<and> req_Header r = Some Map.empty
         \<and> (\<exists>qs. queryParams params [] = Some qs \<and> req_URL r = url @ ''?'' @ qs))"
  by (auto simp: Auto_def Get_def getRequestURL_def Client_Get_def Client_Do_def
        http_NewRequest_def split: option.splits if_splits)

theorem C10_auto_get_drops_headers_witness:
  "Auto (\<lambda>m u. True) ''GET'' JsonType ''http://x/y'' (Some [(''q'', VString ''v'')])
       (Some [''Authorization'' \<mapsto> [''secret'']]) 5 =
     Some (Inr (clientPool,
       \<lparr> req_Method = ''GET'', req_URL = ''http://x/y?q=v'', req_Body = [],
         req_Header = Some Map.empty \<rparr>))"
proof -
  have h: "Auto (\<lambda>m u. True) GetMethod JsonType ''http://x/y'' (Some [(''q'', VString ''v'')])
       (Some [''Authorization'' \<mapsto> [''secret'']]) 5 =
     Some (Inr (clientPool,
       \<lparr> req_Method = ''GET'', req_URL = ''http://x/y?q=v'', req_Body = [],
         req_Header = Some Map.empty \<rparr>))"
    by (simp add: Auto_def Get_def getRequestURL_def Client_Get_def Client_Do_def
          http_NewRequest_def queryParams.simps range_of_def Encode_def pieces_def shouldEscape_def)
  show ?thesis
    using h C10_auto_get_drops_headers [of "\<lambda>m u. True" JsonType "''http://x/y''"
        "Some [(''q'', VString ''v'')]" "Some [''Authorization'' \<mapsto> [''secret'']]" 5 None 0]
    by (simp add: GetMethod_def)
qed

end
